theory Spec2Isabelle
  imports Complex_Main "HOL-Library.Word"
begin

section \<open>Vector geometry primitives of \<open>karta/vector/vectorgeo.pyx\<close>\<close>

text \<open>
  The Cython module computes with C doubles. They are modelled by the type \<open>real\<close>:
  every operation is the exact one, rounding, infinities and NaN are not represented.
  The one parameter that is a C float, \<open>tol\<close> of \<open>pt_nearest_proj\<close>, is widened to a
  double where the code uses it; its \<open>real\<close> stands for the value after the narrowing
  to a float at the call.
  The functions of \<open>libc.math\<close> are the corresponding functions of the real numbers
  (\<open>sqrt\<close>, \<open>sin\<close>, \<open>cos\<close>, \<open>arctan\<close>, \<open>arcsin\<close>, \<open>arccos\<close>), and \<open>np.pi\<close> is \<open>pi\<close>.
  A quotient with divisor zero is \<open>0\<close> in HOL; the theorems below say where they need
  a divisor to be non-zero.
\<close>

subsection \<open>Structs\<close>

text \<open>
  \<open>cdef struct Vector2: double x, double y\<close> and \<open>cdef struct Vector3\<close>. The fields
  are prefixed (\<open>v2x\<close> for \<open>Vector2.x\<close>), since a record field is a global constant.
\<close>

record Vector2 =
  v2x :: real
  v2y :: real

record Vector3 =
  v3x :: real
  v3y :: real
  v3z :: real

subsection \<open>Scalar and vector helpers\<close>

definition dot2 :: "Vector2 \<Rightarrow> Vector2 \<Rightarrow> real" where
  "dot2 u v = v2x u * v2x v + v2y u * v2y v"

definition dot3 :: "Vector3 \<Rightarrow> Vector3 \<Rightarrow> real" where
  "dot3 u v = v3x u * v3x v + v3y u * v3y v + v3z u * v3z v"

definition cross2 :: "Vector2 \<Rightarrow> Vector2 \<Rightarrow> real" where
  "cross2 u v = v2x u * v2y v - v2y u * v2x v"

definition cross3 :: "Vector3 \<Rightarrow> Vector3 \<Rightarrow> Vector3" where
  "cross3 u v = \<lparr>v3x = v3y u * v3z v - v3z u * v3y v,
                 v3y = v3z u * v3x v - v3x u * v3z v,
                 v3z = v3x u * v3y v - v3y u * v3x v\<rparr>"

definition proj2 :: "Vector2 \<Rightarrow> Vector2 \<Rightarrow> Vector2" where
  "proj2 u v = (let uv_vv = dot2 u v / dot2 v v
                in \<lparr>v2x = uv_vv * v2x v, v2y = uv_vv * v2y v\<rparr>)"

definition dist2 :: "Vector2 \<Rightarrow> Vector2 \<Rightarrow> real" where
  "dist2 pt0 pt1 = sqrt ((v2x pt0 - v2x pt1)\<^sup>2 + (v2y pt0 - v2y pt1)\<^sup>2)"

definition mind :: "real \<Rightarrow> real \<Rightarrow> real" where
  "mind a b = (if a \<le> b then a else b)"

definition maxd :: "real \<Rightarrow> real \<Rightarrow> real" where
  "maxd a b = (if a \<ge> b then a else b)"

definition absd :: "real \<Rightarrow> real" where
  "absd a = (if a < 0 then - a else a)"

subsection \<open>Spherical and Cartesian coordinates\<close>

text \<open>
  \<open>atan2\<close> of \<open>libc.math\<close>, by the cases of the C standard: the angle of the point
  \<open>(x, y)\<close> in \<open>(-pi, pi]\<close>, and \<open>0\<close> at the origin.
\<close>

definition atan2 :: "real \<Rightarrow> real \<Rightarrow> real" where
  "atan2 y x =
     (if 0 < x then arctan (y / x)
      else if x < 0 then (if 0 \<le> y then arctan (y / x) + pi else arctan (y / x) - pi)
      else if 0 < y then pi / 2
      else if y < 0 then - (pi / 2)
      else 0)"

definition sph2cart :: "Vector2 \<Rightarrow> Vector3" where
  "sph2cart a =
     (let theta = 90 - v2y a
      in \<lparr>v3x = sin (pi * theta / 180) * cos (pi * v2x a / 180),
          v3y = sin (pi * theta / 180) * sin (pi * v2x a / 180),
          v3z = cos (pi * theta / 180)\<rparr>)"

definition cart2sph :: "Vector3 \<Rightarrow> Vector2" where
  "cart2sph a =
     (let lon = (if absd (v3x a) > 1 / 100000000
                 then atan2 (v3y a) (v3x a)
                 else arcsin (v3y a / sqrt (v3x a * v3x a + v3y a * v3y a)));
          lat = (if absd (v3z a) > 1 / 100000000
                 then 0.5 * pi - arctan (sqrt (v3x a * v3x a + v3y a * v3y a) / v3z a)
                 else 0.5 * pi
                      - arccos (v3z a / sqrt (v3x a * v3x a + v3y a * v3y a + v3z a * v3z a)))
      in \<lparr>v2x = lon * 180 / pi, v2y = lat * 180 / pi\<rparr>)"

section \<open>Planar nearest point\<close>

text \<open>
  \<open>pt_nearest_planar\<close> returns the nested tuple \<open>((px, py), distance)\<close>. The branches
  are those of the source, in its order.
\<close>

definition pt_nearest_planar ::
  "real \<Rightarrow> real \<Rightarrow> real \<Rightarrow> real \<Rightarrow> real \<Rightarrow> real \<Rightarrow> (real \<times> real) \<times> real" where
  "pt_nearest_planar x y endpt0_0 endpt0_1 endpt1_0 endpt1_1 =
     (let pt = \<lparr>v2x = x, v2y = y\<rparr>;
          pt0 = \<lparr>v2x = endpt0_0, v2y = endpt0_1\<rparr>;
          pt1 = \<lparr>v2x = endpt1_0, v2y = endpt1_1\<rparr>;
          u = \<lparr>v2x = x - v2x pt0, v2y = y - v2y pt0\<rparr>;
          v = \<lparr>v2x = v2x pt1 - v2x pt0, v2y = v2y pt1 - v2y pt0\<rparr>;
          u_on_v = proj2 u v;
          u_int = \<lparr>v2x = v2x u_on_v + v2x pt0, v2y = v2y u_on_v + v2y pt0\<rparr>
      in if absd (v2x pt0 - v2x pt1) < 1 / 10000 then
           (if v2y u_int > maxd (v2y pt0) (v2y pt1) then
              (if v2y pt0 > v2y pt1 then ((v2x pt0, v2y pt0), dist2 pt0 pt)
               else ((v2x pt1, v2y pt1), dist2 pt1 pt))
            else if v2y u_int < mind (v2y pt0) (v2y pt1) then
              (if v2y pt0 < v2y pt1 then ((v2x pt0, v2y pt0), dist2 pt0 pt)
               else ((v2x pt1, v2y pt1), dist2 pt1 pt))
            else ((v2x u_int, v2y u_int), dist2 u_int pt))
         else
           (if v2x u_int > maxd (v2x pt0) (v2x pt1) then
              (if v2x pt0 > v2x pt1 then ((v2x pt0, v2y pt0), dist2 pt0 pt)
               else ((v2x pt1, v2y pt1), dist2 pt1 pt))
            else if v2x u_int < mind (v2x pt0) (v2x pt1) then
              (if v2x pt0 < v2x pt1 then ((v2x pt0, v2y pt0), dist2 pt0 pt)
               else ((v2x pt1, v2y pt1), dist2 pt1 pt))
            else ((v2x u_int, v2y u_int), dist2 u_int pt)))"

text \<open>
  The point \<open>q\<close> lies on the closed segment from \<open>e0\<close> to \<open>e1\<close>: \<open>q - e0\<close> is parallel
  to \<open>e1 - e0\<close> and its component along \<open>e1 - e0\<close> is between \<open>0\<close> and the length of
  the segment.
\<close>

definition on_segment :: "real \<times> real \<Rightarrow> real \<times> real \<Rightarrow> real \<times> real \<Rightarrow> bool" where
  "on_segment q e0 e1 =
     (let w = \<lparr>v2x = fst q - fst e0, v2y = snd q - snd e0\<rparr>;
          v = \<lparr>v2x = fst e1 - fst e0, v2y = snd e1 - snd e0\<rparr>
      in cross2 w v = 0 \<and> 0 \<le> dot2 w v \<and> dot2 w v \<le> dot2 v v)"

text \<open>
  The position of the foot of the perpendicular along the segment, as \<open>proj2\<close>
  computes it: \<open>dot2 u v / dot2 v v\<close> for \<open>u\<close> the point and \<open>v\<close> the end point
  \<open>(c, d)\<close>, both relative to \<open>(a, b)\<close>.
\<close>

definition foot_param :: "real \<Rightarrow> real \<Rightarrow> real \<Rightarrow> real \<Rightarrow> real \<Rightarrow> real \<Rightarrow> real" where
  "foot_param x y a b c d =
     ((x - a) * (c - a) + (y - b) * (d - b)) / ((c - a) * (c - a) + (d - b) * (d - b))"

section \<open>Path length\<close>

text \<open>
  \<open>CoordString\<close> is an extension type of the module \<open>coordstring\<close>, which \<open>length\<close>
  only imports. It is taken as a parameter: the record holds what \<open>length\<close> reads of
  it, namely \<open>len(cs)\<close>, the flag \<open>cs.ring\<close> and the accessors \<open>cs.getX\<close> and
  \<open>cs.getY\<close>, whose behaviour is a hypothesis of the theorems that need it.
\<close>

record CoordString =
  cs_len :: int
  ring :: bool
  getX :: "int \<Rightarrow> real"
  getY :: "int \<Rightarrow> real"

text \<open>
  The \<open>while i != (n-1)\<close> loop of \<open>length\<close>, with its variables \<open>i\<close>, \<open>d\<close>, \<open>x0\<close>,
  \<open>y0\<close>. It does not end when \<open>i\<close> starts above \<open>n - 1\<close>, so the result is an option
  and \<open>None\<close> stands for a loop that runs forever.
\<close>

partial_function (option) length_loop ::
  "CoordString \<Rightarrow> int \<Rightarrow> int \<Rightarrow> real \<Rightarrow> real \<Rightarrow> real \<Rightarrow> real option" where
  "length_loop cs n i d x0 y0 =
     (if i \<noteq> n - 1 then
        (let x1 = getX cs (i + 1);
             y1 = getY cs (i + 1)
         in length_loop cs n (i + 1)
              (d + sqrt ((x1 - x0) * (x1 - x0) + (y1 - y0) * (y1 - y0))) x1 y1)
      else Some d)"

definition length_cs :: "CoordString \<Rightarrow> real option" where
  "length_cs cs =
     (let n = cs_len cs;
          n = (if ring cs then n + 1 else n)
      in length_loop cs n 0 0 (getX cs 0) (getY cs 0))"

text \<open>The point of the coordinate sequence at an index.\<close>

abbreviation (input) cs_point :: "CoordString \<Rightarrow> int \<Rightarrow> Vector2" where
  "cs_point cs j \<equiv> \<lparr>v2x = getX cs j, v2y = getY cs j\<rparr>"

section \<open>Geodesic nearest point\<close>

text \<open>
  The callables \<open>fwd\<close> and \<open>inv\<close> are parameters: functions of four doubles that
  return a triple, as the source unpacks their results. The parameter \<open>inv\<close> is written
  \<open>inv'\<close>, since \<open>inv\<close> is a constant of HOL.
\<close>

type_synonym geod = "real \<Rightarrow> real \<Rightarrow> real \<Rightarrow> real \<Rightarrow> real \<times> real \<times> real"

definition along_distance ::
  "geod \<Rightarrow> geod \<Rightarrow> real \<Rightarrow> real \<Rightarrow> real \<Rightarrow> real \<Rightarrow> real \<Rightarrow> real \<Rightarrow> real" where
  "along_distance fwd inv' x0 y0 xp yp az f =
     (case fwd x0 y0 az f of (trialx, trialy, _) \<Rightarrow>
        (case inv' trialx trialy xp yp of (_, _, d) \<Rightarrow> d))"

definition along_distance_gradient ::
  "geod \<Rightarrow> geod \<Rightarrow> real \<Rightarrow> real \<Rightarrow> real \<Rightarrow> real \<Rightarrow> real \<Rightarrow> real \<Rightarrow> real \<Rightarrow> real" where
  "along_distance_gradient fwd inv' x0 y0 xp yp az f dx =
     (let d1 = along_distance fwd inv' x0 y0 xp yp az f;
          d2 = along_distance fwd inv' x0 y0 xp yp az (f + dx)
      in (d2 - d1) / dx)"

text \<open>
  The errors of the module: \<open>ConvergenceError\<close>, the class it declares, and
  \<open>ZeroDivisionError\<close>, which Cython's checked division of doubles sets for a zero
  divisor.
\<close>

datatype error = ConvergenceError | ZeroDivisionError

text \<open>
  The variables of the bisection loop: \<open>x0\<close>, \<open>x1\<close>, \<open>xm\<close>, \<open>dx\<close> and the counter \<open>i\<close>.
  The counter and \<open>maxiter\<close> are C ints, modelled by \<open>int\<close>: the counter starts at \<open>0\<close>
  and the loop stops when it meets \<open>maxiter\<close>, so with \<open>0 \<le> maxiter\<close> it never leaves
  the range of a C int.
\<close>

record bisect_state =
  b_x0 :: real
  b_x1 :: real
  b_xm :: real
  b_dx :: real
  b_i :: int

text \<open>One pass through the body of the loop, after the test of the counter.\<close>

definition bisect_step ::
  "geod \<Rightarrow> geod \<Rightarrow> real \<times> real \<Rightarrow> real \<times> real \<Rightarrow> real \<Rightarrow> real \<Rightarrow> bisect_state
     \<Rightarrow> bisect_state" where
  "bisect_step fwd inv' pt endpt0 az L s =
     (let xm = 0.5 * (b_x0 s + b_x1 s);
          grad = along_distance_gradient fwd inv' (fst endpt0) (snd endpt0) (fst pt) (snd pt)
                   az (xm * L) (1 / 10000000 * L)
      in if grad > 0
         then s\<lparr>b_xm := xm, b_dx := absd (b_x1 s - xm) * L, b_x1 := xm, b_i := b_i s + 1\<rparr>
         else s\<lparr>b_xm := xm, b_dx := absd (b_x0 s - xm) * L, b_x0 := xm, b_i := b_i s + 1\<rparr>)"

text \<open>
  The loop \<open>while dx > tol\<close>. It raises when the counter meets \<open>maxiter\<close>, and
  with a negative \<open>maxiter\<close> and a width that never reaches \<open>tol\<close> it does not end:
  \<open>None\<close> stands for that.
\<close>

partial_function (option) bisect_loop ::
  "geod \<Rightarrow> geod \<Rightarrow> real \<times> real \<Rightarrow> real \<times> real \<Rightarrow> real \<Rightarrow> real \<Rightarrow> real \<Rightarrow> int
     \<Rightarrow> bisect_state \<Rightarrow> (error + bisect_state) option" where
  "bisect_loop fwd inv' pt endpt0 az L tol maxiter s =
     (if b_dx s > tol then
        (if b_i s = maxiter then Some (Inl ConvergenceError)
         else bisect_loop fwd inv' pt endpt0 az L tol maxiter
                (bisect_step fwd inv' pt endpt0 az L s))
      else Some (Inr s))"

text \<open>The values of the loop variables before the loop.\<close>

definition bisect_init :: "real \<Rightarrow> bisect_state" where
  "bisect_init tol = \<lparr>b_x0 = 0, b_x1 = 1, b_xm = 0, b_dx = tol + 1, b_i = 0\<rparr>"

text \<open>
  \<open>pt_nearest_proj\<close> returns \<open>(endpt0, d)\<close>, \<open>(endpt1, d)\<close> or \<open>((xn, yn), d)\<close>, or
  raises \<open>ConvergenceError\<close>.
\<close>

definition pt_nearest_proj ::
  "geod \<Rightarrow> geod \<Rightarrow> real \<times> real \<Rightarrow> real \<times> real \<Rightarrow> real \<times> real \<Rightarrow> real \<Rightarrow> int
     \<Rightarrow> (error + (real \<times> real) \<times> real) option" where
  "pt_nearest_proj fwd inv' pt endpt0 endpt1 tol maxiter =
     (case inv' (fst endpt0) (snd endpt0) (fst endpt1) (snd endpt1) of (az, az2, L) \<Rightarrow>
        (let grad0 = along_distance_gradient fwd inv' (fst endpt0) (snd endpt0) (fst pt) (snd pt)
                       az 0 (1 / 10000000 * L);
             grad1 = along_distance_gradient fwd inv' (fst endpt0) (snd endpt0) (fst pt) (snd pt)
                       az L (1 / 10000000 * L)
         in if grad0 > 0 then
              Some (Inr (endpt0,
                along_distance fwd inv' (fst endpt0) (snd endpt0) (fst pt) (snd pt) az 0))
            else if grad1 < 0 then
              Some (Inr (endpt1,
                along_distance fwd inv' (fst endpt0) (snd endpt0) (fst pt) (snd pt) az L))
            else
              (case bisect_loop fwd inv' pt endpt0 az L tol maxiter (bisect_init tol) of
                 None \<Rightarrow> None
               | Some (Inl e) \<Rightarrow> Some (Inl e)
               | Some (Inr s) \<Rightarrow>
                   (case fwd (fst endpt0) (snd endpt0) az (b_xm s * L) of (xn, yn, _) \<Rightarrow>
                      Some (Inr ((xn, yn),
                        along_distance fwd inv' (fst endpt0) (snd endpt0) (fst pt) (snd pt)
                          az (b_xm s * L)))))))"

text \<open>
  Shorthands for the two calls that \<open>pt_nearest_proj\<close> makes throughout: the distance
  functional at \<open>f\<close>, and its gradient at \<open>f\<close> with the step \<open>1e-7 * L\<close>.
\<close>

abbreviation (input) dist_at ::
  "geod \<Rightarrow> geod \<Rightarrow> real \<times> real \<Rightarrow> real \<times> real \<Rightarrow> real \<Rightarrow> real \<Rightarrow> real" where
  "dist_at fwd inv' pt endpt0 az f \<equiv>
     along_distance fwd inv' (fst endpt0) (snd endpt0) (fst pt) (snd pt) az f"

abbreviation (input) grad_at ::
  "geod \<Rightarrow> geod \<Rightarrow> real \<times> real \<Rightarrow> real \<times> real \<Rightarrow> real \<Rightarrow> real \<Rightarrow> real \<Rightarrow> real" where
  "grad_at fwd inv' pt endpt0 az L f \<equiv>
     along_distance_gradient fwd inv' (fst endpt0) (snd endpt0) (fst pt) (snd pt) az f
       (1 / 10000000 * L)"

subsection \<open>The search with its checked division, its counter and its evaluations\<close>

text \<open>
  Three things that the functions above leave out, and that decide which errors the
  search raises and when.

  The division in \<open>_along_distance_gradient\<close> is a checked Cython division: for a zero
  step it sets \<open>ZeroDivisionError\<close>. The function is a \<open>cdef\<close> function with a C
  return type and no exception clause, so what becomes of the error depends on the
  build, and the model takes it as the parameter \<open>propagate\<close>: where exceptions
  propagate out of such functions (the default of Cython 3) the caller gets the
  error; otherwise (Cython 0.x) it is printed and ignored and the function returns
  \<open>0\<close>. In that second case, and for every non-zero step, the value is that of
  \<open>along_distance_gradient\<close> above.
\<close>

definition along_distance_gradient_checked ::
  "bool \<Rightarrow> geod \<Rightarrow> geod \<Rightarrow> real \<Rightarrow> real \<Rightarrow> real \<Rightarrow> real \<Rightarrow> real \<Rightarrow> real \<Rightarrow> real
     \<Rightarrow> error + real" where
  "along_distance_gradient_checked propagate fwd inv' x0 y0 xp yp az f dx =
     (let d1 = along_distance fwd inv' x0 y0 xp yp az f;
          d2 = along_distance fwd inv' x0 y0 xp yp az (f + dx)
      in if dx = 0 then (if propagate then Inl ZeroDivisionError else Inr 0)
         else Inr ((d2 - d1) / dx))"

text \<open>
  The counter \<open>i\<close> and \<open>maxiter\<close> are C ints: 32-bit words here. The loop compares
  them for equality and increments the counter, which wraps, so a negative
  \<open>maxiter\<close> is met after \<open>2 ^ 32 + maxiter\<close> passes.
\<close>

record checked_state =
  c_x0 :: real
  c_x1 :: real
  c_xm :: real
  c_dx :: real
  c_i :: "32 word"

text \<open>The assignments of one pass, for the midpoint \<open>xm\<close> and the gradient there.\<close>

definition bisect_update :: "real \<Rightarrow> checked_state \<Rightarrow> real \<Rightarrow> real \<Rightarrow> checked_state" where
  "bisect_update L s xm grad =
     (if grad > 0
      then s\<lparr>c_xm := xm, c_dx := absd (c_x1 s - xm) * L, c_x1 := xm, c_i := c_i s + 1\<rparr>
      else s\<lparr>c_xm := xm, c_dx := absd (c_x0 s - xm) * L, c_x0 := xm, c_i := c_i s + 1\<rparr>)"

text \<open>
  The loop, with the list of the positions \<open>f\<close> at which the gradient has been
  evaluated so far. It ends on every input: the distance of the counter to
  \<open>maxiter\<close> decreases.
\<close>

function bisect_loop_checked ::
  "bool \<Rightarrow> geod \<Rightarrow> geod \<Rightarrow> real \<times> real \<Rightarrow> real \<times> real \<Rightarrow> real \<Rightarrow> real \<Rightarrow> real \<Rightarrow> 32 word
     \<Rightarrow> checked_state \<Rightarrow> real list \<Rightarrow> (error + checked_state) \<times> real list" where
  "bisect_loop_checked propagate fwd inv' pt endpt0 az L tol maxiter s evals =
     (if c_dx s > tol then
        (if c_i s = maxiter then (Inl ConvergenceError, evals)
         else
           (case along_distance_gradient_checked propagate fwd inv'
                   (fst endpt0) (snd endpt0) (fst pt) (snd pt) az
                   (0.5 * (c_x0 s + c_x1 s) * L) (1 / 10000000 * L) of
              Inl e \<Rightarrow> (Inl e, evals @ [0.5 * (c_x0 s + c_x1 s) * L])
            | Inr grad \<Rightarrow>
                bisect_loop_checked propagate fwd inv' pt endpt0 az L tol maxiter
                  (bisect_update L s (0.5 * (c_x0 s + c_x1 s)) grad)
                  (evals @ [0.5 * (c_x0 s + c_x1 s) * L])))
      else (Inr s, evals))"
  by pat_completeness auto
termination
proof (relation "measure (\<lambda>(propagate, fwd, inv', pt, endpt0, az, L, tol, maxiter, s, evals).
    unat (maxiter - c_i s))", goal_cases)
  case 1
  show ?case by simp
next
  case (2 propagate fwd inv' pt endpt0 az L tol maxiter s evals grad)
  then have "maxiter - c_i s \<noteq> 0" by simp
  then have "unat (maxiter - c_i s - 1) < unat (maxiter - c_i s)"
    by (simp add: unat_minus_one unat_gt_0)
  also have "maxiter - c_i s - 1 = maxiter - (c_i s + 1)" by simp
  finally have "unat (maxiter - (c_i s + 1)) < unat (maxiter - c_i s)" .
  then show ?case by (simp add: bisect_update_def del: diff_add_eq_diff_diff_swap)
qed

definition checked_init :: "real \<Rightarrow> checked_state" where
  "checked_init tol = \<lparr>c_x0 = 0, c_x1 = 1, c_xm = 0, c_dx = tol + 1, c_i = 0\<rparr>"

text \<open>
  \<open>pt_nearest_proj\<close> with the result or the error, and the positions of the gradient
  evaluations in their order: \<open>0\<close>, \<open>L\<close>, then the midpoints of the loop.
\<close>

definition pt_nearest_proj_checked ::
  "bool \<Rightarrow> geod \<Rightarrow> geod \<Rightarrow> real \<times> real \<Rightarrow> real \<times> real \<Rightarrow> real \<times> real \<Rightarrow> real \<Rightarrow> 32 word
     \<Rightarrow> (error + (real \<times> real) \<times> real) \<times> real list" where
  "pt_nearest_proj_checked propagate fwd inv' pt endpt0 endpt1 tol maxiter =
     (case inv' (fst endpt0) (snd endpt0) (fst endpt1) (snd endpt1) of (az, az2, L) \<Rightarrow>
        (case along_distance_gradient_checked propagate fwd inv'
                (fst endpt0) (snd endpt0) (fst pt) (snd pt) az 0 (1 / 10000000 * L) of
           Inl e \<Rightarrow> (Inl e, [0])
         | Inr grad0 \<Rightarrow>
             (case along_distance_gradient_checked propagate fwd inv'
                     (fst endpt0) (snd endpt0) (fst pt) (snd pt) az L (1 / 10000000 * L) of
                Inl e \<Rightarrow> (Inl e, [0, L])
              | Inr grad1 \<Rightarrow>
                  if grad0 > 0 then
                    (Inr (endpt0, dist_at fwd inv' pt endpt0 az 0), [0, L])
                  else if grad1 < 0 then
                    (Inr (endpt1, dist_at fwd inv' pt endpt0 az L), [0, L])
                  else
                    (case bisect_loop_checked propagate fwd inv' pt endpt0 az L tol maxiter
                            (checked_init tol) [0, L] of
                       (Inl e, evals) \<Rightarrow> (Inl e, evals)
                     | (Inr s, evals) \<Rightarrow>
                         (case fwd (fst endpt0) (snd endpt0) az (c_xm s * L) of
                            (xn, yn, _) \<Rightarrow>
                              (Inr ((xn, yn), dist_at fwd inv' pt endpt0 az (c_xm s * L)),
                               evals))))))"



subsection \<open>A geodetic pair and a ring for the concrete evaluations\<close>

text \<open>
  A pair of callables on the plane: \<open>line_fwd\<close> walks the distance \<open>f\<close> along the
  first axis, \<open>line_inv\<close> measures the distance of two points as the sum of their
  coordinate differences. \<open>square_ring\<close> is the unit square as a ring of four points
  whose accessors wrap.
\<close>

definition line_fwd :: geod where
  "line_fwd x0 y0 az f = (x0 + f, y0, az)"

definition line_inv :: geod where
  "line_inv xa ya xb yb = (0, 0, \<bar>xb - xa\<bar> + \<bar>yb - ya\<bar>)"

definition square_ring :: CoordString where
  "square_ring = \<lparr>cs_len = 4, ring = True,
     getX = (\<lambda>i. if i mod 4 = 1 \<or> i mod 4 = 2 then 1 else 0),
     getY = (\<lambda>i. if i mod 4 = 2 \<or> i mod 4 = 3 then 1 else 0)\<rparr>"

section \<open>Properties of the planar nearest point\<close>

subsection \<open>The branches, and the cases in which the result is on the segment\<close>

lemma pt_nearest_planar_branches:
  "pt_nearest_planar x y a b c d =
     (let s = foot_param x y a b c d;
          fx = s * (c - a) + a;
          fy = s * (d - b) + b;
          pt = \<lparr>v2x = x, v2y = y\<rparr>
      in if absd (a - c) < 1 / 10000 then
           (if fy > maxd b d then
              (if b > d then ((a, b), dist2 \<lparr>v2x = a, v2y = b\<rparr> pt)
               else ((c, d), dist2 \<lparr>v2x = c, v2y = d\<rparr> pt))
            else if fy < mind b d then
              (if b < d then ((a, b), dist2 \<lparr>v2x = a, v2y = b\<rparr> pt)
               else ((c, d), dist2 \<lparr>v2x = c, v2y = d\<rparr> pt))
            else ((fx, fy), dist2 \<lparr>v2x = fx, v2y = fy\<rparr> pt))
         else
           (if fx > maxd a c then
              (if a > c then ((a, b), dist2 \<lparr>v2x = a, v2y = b\<rparr> pt)
               else ((c, d), dist2 \<lparr>v2x = c, v2y = d\<rparr> pt))
            else if fx < mind a c then
              (if a < c then ((a, b), dist2 \<lparr>v2x = a, v2y = b\<rparr> pt)
               else ((c, d), dist2 \<lparr>v2x = c, v2y = d\<rparr> pt))
            else ((fx, fy), dist2 \<lparr>v2x = fx, v2y = fy\<rparr> pt)))"
  unfolding pt_nearest_planar_def proj2_def dot2_def foot_param_def Let_def Vector2.simps
  by (rule refl)

lemma pt_nearest_planar_distance:
  "snd (pt_nearest_planar x y a b c d)
     = dist2 \<lparr>v2x = fst (fst (pt_nearest_planar x y a b c d)),
              v2y = snd (fst (pt_nearest_planar x y a b c d))\<rparr> \<lparr>v2x = x, v2y = y\<rparr>"
  by (simp add: pt_nearest_planar_def Let_def)

lemma clamp_param:
  assumes "a \<noteq> c"
    and "\<not> s * (c - a) + a > maxd a c" and "\<not> s * (c - a) + a < mind a c"
  shows "0 \<le> s \<and> s \<le> 1"
proof (cases "a < c")
  case True
  then have k: "0 < c - a" by simp
  from assms True have "\<not> s * (c - a) + a > c" "\<not> s * (c - a) + a < a"
    by (simp_all add: maxd_def mind_def)
  then have "s * (c - a) \<le> c - a" "0 \<le> s * (c - a)"
    by linarith+
  with k show ?thesis by (simp add: mult_le_cancel_right2 zero_le_mult_iff)
next
  case False
  with assms have k: "c - a < 0" by simp
  from assms False have "\<not> s * (c - a) + a > a" "\<not> s * (c - a) + a < c"
    by (simp_all add: maxd_def mind_def)
  then have "c - a \<le> s * (c - a)" "s * (c - a) \<le> 0"
    by linarith+
  with k show ?thesis by (simp add: mult_le_cancel_right1 mult_le_0_iff)
qed

lemma on_segment_param:
  assumes "0 \<le> s" "s \<le> 1"
  shows "on_segment (s * (c - a) + a, s * (d - b) + b) (a, b) (c, d)"
proof -
  define q where "q = (c - a) * (c - a) + (d - b) * (d - b)"
  have q: "0 \<le> q" by (simp add: q_def)
  from mult_right_mono [OF assms(2) q] have "s * q \<le> q" by simp
  moreover from assms(1) q have "0 \<le> s * q" by simp
  ultimately show ?thesis
    by (simp add: on_segment_def cross2_def dot2_def Let_def q_def algebra_simps)
qed

lemma on_segment_endpoints:
  "on_segment (a, b) (a, b) (c, d)" "on_segment (c, d) (a, b) (c, d)"
  by (simp_all add: on_segment_def cross2_def dot2_def Let_def)

lemma pt_nearest_planar_on_segment:
  assumes ok: "\<not> (absd (a - c) < 1 / 10000 \<and> b = d)"
  shows "on_segment (fst (pt_nearest_planar x y a b c d)) (a, b) (c, d)"
proof -
  define s where "s = foot_param x y a b c d"
  show ?thesis
  proof (cases "absd (a - c) < 1 / 10000")
    case True
    with ok have ne: "b \<noteq> d" by simp
    show ?thesis
    proof (cases "s * (d - b) + b > maxd b d \<or> s * (d - b) + b < mind b d")
      case True
      with \<open>absd (a - c) < 1 / 10000\<close> show ?thesis
        unfolding pt_nearest_planar_branches s_def [symmetric] Let_def
        by (auto simp: on_segment_endpoints)
    next
      case False
      with clamp_param [OF ne, of s] have "0 \<le> s \<and> s \<le> 1" by simp
      then have "on_segment (s * (c - a) + a, s * (d - b) + b) (a, b) (c, d)"
        by (simp add: on_segment_param)
      with False \<open>absd (a - c) < 1 / 10000\<close> show ?thesis
        unfolding pt_nearest_planar_branches s_def [symmetric] Let_def by simp
    qed
  next
    case nv: False
    then have ne: "a \<noteq> c" by (auto simp: absd_def)
    show ?thesis
    proof (cases "s * (c - a) + a > maxd a c \<or> s * (c - a) + a < mind a c")
      case True
      with nv show ?thesis
        unfolding pt_nearest_planar_branches s_def [symmetric] Let_def
        by (auto simp: on_segment_endpoints)
    next
      case False
      with clamp_param [OF ne, of s] have "0 \<le> s \<and> s \<le> 1" by simp
      then have "on_segment (s * (c - a) + a, s * (d - b) + b) (a, b) (c, d)"
        by (simp add: on_segment_param)
      with False nv show ?thesis
        unfolding pt_nearest_planar_branches s_def [symmetric] Let_def by simp
    qed
  qed
qed


lemma foot_param_beyond:
  assumes "(a, b) \<noteq> (c, d)"
  shows "foot_param (c + t * (c - a)) (d + t * (d - b)) a b c d = 1 + t"
proof -
  define q where "q = (c - a) * (c - a) + (d - b) * (d - b)"
  from assms have "c - a \<noteq> 0 \<or> d - b \<noteq> 0" by auto
  then have "q \<noteq> 0" unfolding q_def by (auto simp: sum_squares_eq_zero_iff)
  moreover have "(c + t * (c - a) - a) * (c - a) + (d + t * (d - b) - b) * (d - b) = (1 + t) * q"
    by (simp add: q_def algebra_simps)
  ultimately show ?thesis by (simp add: foot_param_def q_def [symmetric])
qed

lemma pt_nearest_planar_beyond_endpt1:
  assumes ne: "(a, b) \<noteq> (c, d)" and ok: "\<not> (absd (a - c) < 1 / 10000 \<and> b = d)"
    and t: "0 < t"
  shows "fst (pt_nearest_planar (c + t * (c - a)) (d + t * (d - b)) a b c d) = (c, d)"
proof -
  have beyond: "(if p < r then (1 + t) * (r - p) + p > r else (1 + t) * (r - p) + p < r)"
    if "p \<noteq> r" for p r :: real
  proof (cases "p < r")
    case True
    with t have "0 < t * (r - p)" by simp
    with True show ?thesis by (simp add: algebra_simps)
  next
    case False
    with that have "r - p < 0" by simp
    with t have "t * (r - p) < 0" by (simp add: mult_pos_neg)
    with False show ?thesis by (simp add: algebra_simps)
  qed
  show ?thesis
  proof (cases "absd (a - c) < 1 / 10000")
    case True
    with ok have "b \<noteq> d" by simp
    from beyond [OF this] True show ?thesis
      unfolding pt_nearest_planar_branches foot_param_beyond [OF ne] Let_def
      by (auto simp: maxd_def mind_def)
  next
    case False
    then have "a \<noteq> c" by (auto simp: absd_def)
    from beyond [OF this] False show ?thesis
      unfolding pt_nearest_planar_branches foot_param_beyond [OF ne] Let_def
      by (auto simp: maxd_def mind_def)
  qed
qed

lemma sqrt_9: "sqrt 9 = 3"
  using real_sqrt_abs [of 3] by simp

text \<open>
  Claim C1. For end points \<open>E0 \<noteq> E1\<close> the point returned by \<open>pt_nearest_planar\<close>
  lies on the closed segment and the distance returned is \<open>dist2\<close> from the query
  point to it. The distance is that of the returned point in every branch
  (\<open>pt_nearest_planar_distance\<close>), and the point is on the segment unless the
  segment passes the near-vertical test with equal \<open>y\<close> coordinates
  (\<open>pt_nearest_planar_on_segment\<close>). There the claim fails: for \<open>E0 = (0, 0)\<close>,
  \<open>E1 = (0.00001, 0)\<close> and the query point \<open>(5, 3)\<close> the foot \<open>(5, 0)\<close> is
  returned, which is not on the segment.
\<close>

theorem pt_nearest_planar_off_segment:
  "pt_nearest_planar 5 3 0 0 (1 / 100000) 0 = ((5, 0), 3)
   \<and> \<not> on_segment (5, 0) (0, 0) (1 / 100000, 0)"
  by (simp add: pt_nearest_planar_def proj2_def dot2_def cross2_def absd_def maxd_def mind_def
        dist2_def on_segment_def Let_def sqrt_9)

text \<open>
  Claim C6. The segment is near-vertical exactly when \<open>\<bar>E0.x - E1.x\<bar> < 1e-4\<close>, the
  clamp is then on \<open>y\<close> and otherwise on \<open>x\<close>, with the end point of the larger or
  smaller coordinate returned beyond the maximum or minimum and the foot otherwise
  (\<open>pt_nearest_planar_branches\<close>); a query point beyond \<open>E1\<close> on the extension of
  the segment gets \<open>E1\<close> unless the segment passes the near-vertical test with equal
  \<open>y\<close> coordinates (\<open>pt_nearest_planar_beyond_endpt1\<close>). There the last part of the
  claim fails: for \<open>E0 = (0, 0)\<close>, \<open>E1 = (0.00001, 0)\<close> and the query point
  \<open>E1 + 99999 * (E1 - E0) = (1, 0)\<close> the query point itself is returned, not \<open>E1\<close>.
\<close>

theorem pt_nearest_planar_beyond_endpt1_missed:
  "pt_nearest_planar (1 / 100000 + 99999 * (1 / 100000 - 0)) (0 + 99999 * (0 - 0))
       0 0 (1 / 100000) 0 = ((1, 0), 0)
   \<and> fst (pt_nearest_planar (1 / 100000 + 99999 * (1 / 100000 - 0)) (0 + 99999 * (0 - 0))
       0 0 (1 / 100000) 0) \<noteq> (1 / 100000, 0)"
  by (simp add: pt_nearest_planar_def proj2_def dot2_def absd_def maxd_def mind_def
        dist2_def Let_def)

section \<open>Properties of the spherical conversions\<close>

lemma cart2sph_sph2cart_northern:
  assumes lon: "- 90 < lon" "lon < 90" and lat: "0 < lat" "lat < 90"
  shows "cart2sph (sph2cart \<lparr>v2x = lon, v2y = lat\<rparr>) = \<lparr>v2x = lon, v2y = lat\<rparr>"
proof -
  define th where "th = pi * (90 - lat) / 180"
  define la where "la = pi * lon / 180"
  have th: "0 < th" "th < pi / 2"
    using mult_strict_left_mono [OF lat(1) pi_gt_zero] lat(2)
    by (simp_all add: th_def algebra_simps)
  have la: "- (pi / 2) < la" "la < pi / 2"
    using mult_strict_left_mono [OF lon(1) pi_gt_zero]
      mult_strict_left_mono [OF lon(2) pi_gt_zero]
    by (simp_all add: la_def)
  have sth: "0 < sin th" using th by (intro sin_gt_zero) simp_all
  have cth: "0 < cos th" using th by (intro cos_gt_zero_pi) simp_all
  have cla: "0 < cos la" using la by (intro cos_gt_zero_pi) simp_all
  define x where "x = sin th * cos la"
  define y where "y = sin th * sin la"
  define z where "z = cos th"
  have s: "sph2cart \<lparr>v2x = lon, v2y = lat\<rparr> = \<lparr>v3x = x, v3y = y, v3z = z\<rparr>"
    by (simp add: sph2cart_def Let_def x_def y_def z_def th_def la_def)
  have x: "0 < x" using sth cla by (simp add: x_def)
  have "x * x + y * y = (sin th * sin th) * (cos la * cos la + sin la * sin la)"
    unfolding x_def y_def by (simp only: algebra_simps)
  then have xy: "x * x + y * y = (sin th)\<^sup>2"
    by (simp only: sin_cos_squared_add3 power2_eq_square mult_1_right)
  then have r: "sqrt (x * x + y * y) = sin th" using sth by simp
  have "x * x + y * y + z * z = (sin th)\<^sup>2 + (cos th)\<^sup>2"
    unfolding xy z_def by (simp only: power2_eq_square)
  then have "x * x + y * y + z * z = 1" by simp
  then have r3: "sqrt (x * x + y * y + z * z) = 1" by simp
  have "y / x = tan la" using sth by (simp add: x_def y_def tan_def)
  then have lon1: "atan2 y x = la" using x la by (simp add: atan2_def arctan_tan)
  have "y / sqrt (x * x + y * y) = sin la" unfolding r using sth by (simp add: y_def)
  then have lon2: "arcsin (y / sqrt (x * x + y * y)) = la" using la by (simp add: arcsin_sin)
  have "sqrt (x * x + y * y) / z = tan th" unfolding r by (simp add: z_def tan_def)
  then have lat1: "arctan (sqrt (x * x + y * y) / z) = th" using th by (simp add: arctan_tan)
  have lat2: "arccos (z / sqrt (x * x + y * y + z * z)) = th"
    unfolding r3 using th by (simp add: z_def arccos_cos)
  have deg: "la * 180 / pi = lon" "(0.5 * pi - th) * 180 / pi = lat"
    by (simp_all add: la_def th_def field_simps)
  have "cart2sph \<lparr>v3x = x, v3y = y, v3z = z\<rparr>
      = \<lparr>v2x = la * 180 / pi, v2y = (0.5 * pi - th) * 180 / pi\<rparr>"
    unfolding cart2sph_def Let_def Vector3.simps lon1 lon2 lat1 lat2 by simp
  then show ?thesis unfolding s deg .
qed


lemma sin_135: "sin (3 * pi / 4) = sqrt 2 / 2"
proof -
  have "3 * pi / 4 = pi - pi / 4" by simp
  then show ?thesis by (simp only: sin_pi_minus sin_45)
qed

lemma cos_135: "cos (3 * pi / 4) = - (sqrt 2 / 2)"
proof -
  have "3 * pi / 4 = pi - pi / 4" by simp
  then show ?thesis by (simp only: cos_pi_minus cos_45)
qed

lemma sqrt2_half_large: "1 / 100000000 < sqrt 2 / 2"
proof -
  have "1 < sqrt 2" by simp
  then show ?thesis by linarith
qed

lemma cart2sph_south:
  assumes r: "1 / 100000000 < r"
  shows "cart2sph \<lparr>v3x = r, v3y = 0, v3z = - r\<rparr> = \<lparr>v2x = 0, v2y = 135\<rparr>"
proof -
  from r have pos: "0 < r" by simp
  then have q: "sqrt (r * r + 0 * 0) / - r = - 1" by simp
  have a: "arctan (- 1) = - (pi / 4)"
    by (simp add: arctan_minus arctan_one)
  have lon: "atan2 0 r = 0" using pos by (simp add: atan2_def)
  have "cart2sph \<lparr>v3x = r, v3y = 0, v3z = - r\<rparr>
      = \<lparr>v2x = atan2 0 r * 180 / pi,
         v2y = (0.5 * pi - arctan (sqrt (r * r + 0 * 0) / - r)) * 180 / pi\<rparr>"
    using r pos by (simp add: cart2sph_def Let_def absd_def del: real_sqrt_abs2 add_0_right mult_zero_right)
  also have "\<dots> = \<lparr>v2x = 0, v2y = 135\<rparr>"
    unfolding q a lon by simp
  finally show ?thesis .
qed

text \<open>
  Claim C5. \<open>cart2sph (sph2cart p) = p\<close> for a longitude in \<open>(-180, 180)\<close> and a
  latitude in \<open>(-90, 90)\<close>. It holds on the quarter of the northern hemisphere
  around the prime meridian (\<open>cart2sph_sph2cart_northern\<close>), and fails for southern
  latitudes, where \<open>arctan\<close> of a negative quotient puts the latitude off by \<open>180\<close>
  degrees: the point of longitude \<open>0\<close> and latitude \<open>-45\<close> comes back with latitude
  \<open>135\<close>.
\<close>

theorem cart2sph_sph2cart_southern:
  "cart2sph (sph2cart \<lparr>v2x = 0, v2y = - 45\<rparr>) = \<lparr>v2x = 0, v2y = 135\<rparr>"
proof -
  have "sph2cart \<lparr>v2x = 0, v2y = - 45\<rparr>
      = \<lparr>v3x = sqrt 2 / 2, v3y = 0, v3z = - (sqrt 2 / 2)\<rparr>"
    by (simp add: sph2cart_def Let_def sin_135 cos_135)
  with cart2sph_south [OF sqrt2_half_large] show ?thesis by simp
qed

text \<open>
  Claim C7, as the code has it. \<open>cart2sph\<close> takes the longitude from \<open>arcsin\<close> when
  \<open>\<bar>x\<bar> \<le> 1e-8\<close> and from \<open>atan2\<close> when \<open>\<bar>x\<bar> > 1e-8\<close>, and the latitude from
  \<open>arccos\<close> when \<open>\<bar>z\<bar> \<le> 1e-8\<close> and from \<open>arctan\<close> when \<open>\<bar>z\<bar> > 1e-8\<close>: a
  coordinate that equals the threshold takes the \<open>arcsin\<close> or \<open>arccos\<close> branch.
\<close>

theorem cart2sph_thresholds:
  "v2x (cart2sph a)
     = (if \<bar>v3x a\<bar> \<le> 1 / 100000000
        then arcsin (v3y a / sqrt ((v3x a)\<^sup>2 + (v3y a)\<^sup>2))
        else atan2 (v3y a) (v3x a)) * 180 / pi
   \<and> v2y (cart2sph a)
     = (if \<bar>v3z a\<bar> \<le> 1 / 100000000
        then pi / 2 - arccos (v3z a / sqrt ((v3x a)\<^sup>2 + (v3y a)\<^sup>2 + (v3z a)\<^sup>2))
        else pi / 2 - arctan (sqrt ((v3x a)\<^sup>2 + (v3y a)\<^sup>2) / v3z a)) * 180 / pi"
  by (simp add: cart2sph_def Let_def absd_def abs_if power2_eq_square not_less)

text \<open>
  At \<open>x = - 1e-8\<close>, which is not below the threshold, the longitude is not the one
  of \<open>atan2\<close>.
\<close>

theorem cart2sph_threshold_counterexample:
  "\<not> \<bar>v3x \<lparr>v3x = - (1 / 100000000), v3y = 0, v3z = 1\<rparr>\<bar> < 1 / 100000000
   \<and> v2x (cart2sph \<lparr>v3x = - (1 / 100000000), v3y = 0, v3z = 1\<rparr>)
       \<noteq> atan2 (v3y \<lparr>v3x = - (1 / 100000000), v3y = 0, v3z = 1\<rparr>)
                 (v3x \<lparr>v3x = - (1 / 100000000), v3y = 0, v3z = 1\<rparr>) * 180 / pi"
  by (simp add: cart2sph_def Let_def absd_def atan2_def)

section \<open>Properties of the path length\<close>

lemma dist2_segment:
  "sqrt ((x1 - x0) * (x1 - x0) + (y1 - y0) * (y1 - y0))
     = dist2 \<lparr>v2x = x0, v2y = y0\<rparr> \<lparr>v2x = x1, v2y = y1\<rparr>"
  by (simp add: dist2_def power2_eq_square algebra_simps)

lemma length_loop_sum:
  "nat (n - 1 - i) = m \<Longrightarrow> 0 \<le> i \<Longrightarrow> i \<le> n - 1 \<Longrightarrow>
   length_loop cs n i d (getX cs i) (getY cs i)
     = Some (d + (\<Sum>k = nat i..<nat (n - 1). dist2 (cs_point cs (int k)) (cs_point cs (int k + 1))))"
proof (induction m arbitrary: i d)
  case 0
  then have "i = n - 1" by simp
  then show ?case by (subst length_loop.simps) simp
next
  case (Suc m)
  then have ne: "i \<noteq> n - 1" and lt: "i < n - 1" by auto
  have "length_loop cs n i d (getX cs i) (getY cs i)
      = length_loop cs n (i + 1)
          (d + dist2 (cs_point cs i) (cs_point cs (i + 1))) (getX cs (i + 1)) (getY cs (i + 1))"
    using ne by (subst length_loop.simps) (simp add: Let_def dist2_segment)
  also have "\<dots> = Some (d + dist2 (cs_point cs i) (cs_point cs (i + 1))
      + (\<Sum>k = nat (i + 1)..<nat (n - 1). dist2 (cs_point cs (int k)) (cs_point cs (int k + 1))))"
    using Suc.prems by (intro Suc.IH) auto
  also have "nat (i + 1) = Suc (nat i)" using Suc.prems by simp
  also have "d + dist2 (cs_point cs i) (cs_point cs (i + 1))
      + (\<Sum>k = Suc (nat i)..<nat (n - 1). dist2 (cs_point cs (int k)) (cs_point cs (int k + 1)))
    = d + (\<Sum>k = nat i..<nat (n - 1). dist2 (cs_point cs (int k)) (cs_point cs (int k + 1)))"
  proof -
    from lt Suc.prems have "nat i < nat (n - 1)" by simp
    from sum.atLeast_Suc_lessThan [OF this,
        of "\<lambda>k. dist2 (cs_point cs (int k)) (cs_point cs (int k + 1))"] Suc.prems
    show ?thesis by simp
  qed
  finally show ?case .
qed

text \<open>
  Claim C9. For a ring of \<open>n \<ge> 1\<close> points whose accessors give at index \<open>n\<close> the
  point of index \<open>0\<close>, \<open>length\<close> returns the sum of the \<open>n\<close> lengths of the
  consecutive segments, the last of them from the point \<open>n - 1\<close> back to the point
  \<open>0\<close>; for four points it is the sum of four lengths.
\<close>

theorem length_ring_closing_segment:
  assumes r: "ring cs" and n: "1 \<le> cs_len cs"
    and wx: "getX cs (cs_len cs) = getX cs 0" and wy: "getY cs (cs_len cs) = getY cs 0"
  shows "length_cs cs
           = Some ((\<Sum>k = 0..<nat (cs_len cs) - 1.
                      dist2 (cs_point cs (int k)) (cs_point cs (int k + 1)))
                   + dist2 (cs_point cs (cs_len cs - 1)) (cs_point cs 0))
       \<and> (cs_len cs = 4 \<longrightarrow>
            length_cs cs
              = Some (dist2 (cs_point cs 0) (cs_point cs 1) + dist2 (cs_point cs 1) (cs_point cs 2)
                      + dist2 (cs_point cs 2) (cs_point cs 3)
                      + dist2 (cs_point cs 3) (cs_point cs 0)))"
proof -
  let ?seg = "\<lambda>k. dist2 (cs_point cs (int k)) (cs_point cs (int k + 1))"
  define m where "m = nat (cs_len cs) - 1"
  from n have len: "cs_len cs = int (Suc m)" by (simp add: m_def)
  have e: "nat (cs_len cs + 1 - 1) = Suc m" using len by simp
  have "length_loop cs (cs_len cs + 1) 0 0 (getX cs 0) (getY cs 0)
      = Some (0 + (\<Sum>k = nat 0..<nat (cs_len cs + 1 - 1). ?seg k))"
    using n by (intro length_loop_sum [OF refl]) simp_all
  then have "length_loop cs (cs_len cs + 1) 0 0 (getX cs 0) (getY cs 0)
      = Some ((\<Sum>k = 0..<m. ?seg k) + ?seg m)"
    unfolding e by simp
  moreover have "?seg m = dist2 (cs_point cs (cs_len cs - 1)) (cs_point cs 0)"
  proof -
    from len have "int m + 1 = cs_len cs" "int m = cs_len cs - 1" by simp_all
    with wx wy show ?thesis by simp
  qed
  moreover have "length_cs cs = length_loop cs (cs_len cs + 1) 0 0 (getX cs 0) (getY cs 0)"
    using r by (simp add: length_cs_def Let_def)
  ultimately have main: "length_cs cs
      = Some ((\<Sum>k = 0..<m. ?seg k) + dist2 (cs_point cs (cs_len cs - 1)) (cs_point cs 0))"
    by simp
  have four: "length_cs cs
              = Some (dist2 (cs_point cs 0) (cs_point cs 1) + dist2 (cs_point cs 1) (cs_point cs 2)
                      + dist2 (cs_point cs 2) (cs_point cs 3)
                      + dist2 (cs_point cs 3) (cs_point cs 0))" if "cs_len cs = 4"
  proof -
    from that have "m = 3" by (simp add: m_def)
    then have "(\<Sum>k = 0..<m. ?seg k) = ?seg 0 + ?seg 1 + ?seg 2"
      by (simp add: numeral_3_eq_3)
    with main that show ?thesis by simp
  qed
  from main four show ?thesis unfolding m_def by blast
qed

theorem length_ring_closing_segment_witness:
  "length_cs square_ring = Some 4
   \<and> Some (dist2 (cs_point square_ring 0) (cs_point square_ring 1)
           + dist2 (cs_point square_ring 1) (cs_point square_ring 2)
           + dist2 (cs_point square_ring 2) (cs_point square_ring 3)
           + dist2 (cs_point square_ring 3) (cs_point square_ring 0)) = Some 4"
proof -
  have r: "ring square_ring" and n: "1 \<le> cs_len square_ring"
    and wx: "getX square_ring (cs_len square_ring) = getX square_ring 0"
    and wy: "getY square_ring (cs_len square_ring) = getY square_ring 0"
    and four: "cs_len square_ring = 4"
    by (simp_all add: square_ring_def)
  have v: "dist2 (cs_point square_ring 0) (cs_point square_ring 1)
           + dist2 (cs_point square_ring 1) (cs_point square_ring 2)
           + dist2 (cs_point square_ring 2) (cs_point square_ring 3)
           + dist2 (cs_point square_ring 3) (cs_point square_ring 0) = 4"
    by (simp add: square_ring_def dist2_def)
  from length_ring_closing_segment [OF r n wx wy]
  have "cs_len square_ring = 4 \<longrightarrow>
            length_cs square_ring
              = Some (dist2 (cs_point square_ring 0) (cs_point square_ring 1)
                      + dist2 (cs_point square_ring 1) (cs_point square_ring 2)
                      + dist2 (cs_point square_ring 2) (cs_point square_ring 3)
                      + dist2 (cs_point square_ring 3) (cs_point square_ring 0))"
    by (rule conjunct2)
  with four v show ?thesis by simp
qed

section \<open>The bisection loop\<close>

subsection \<open>One pass through the body\<close>

lemma bisect_step_i: "b_i (bisect_step fwd inv' pt endpt0 az L s) = b_i s + 1"
  by (simp add: bisect_step_def Let_def)

lemma bisect_step_xm: "b_xm (bisect_step fwd inv' pt endpt0 az L s) = (b_x0 s + b_x1 s) / 2"
  by (simp add: bisect_step_def Let_def)

lemma bisect_step_width:
  "b_x1 (bisect_step fwd inv' pt endpt0 az L s) - b_x0 (bisect_step fwd inv' pt endpt0 az L s)
     = (b_x1 s - b_x0 s) / 2"
  by (simp add: bisect_step_def Let_def field_simps)

lemma bisect_step_dx:
  "b_dx (bisect_step fwd inv' pt endpt0 az L s)
     = \<bar>b_x1 (bisect_step fwd inv' pt endpt0 az L s) - b_x0 (bisect_step fwd inv' pt endpt0 az L s)\<bar> * L"
  by (simp add: bisect_step_def Let_def absd_def abs_if field_simps)

lemma bisect_step_bounds:
  "0 \<le> b_x0 s \<Longrightarrow> b_x0 s < b_x1 s \<Longrightarrow> b_x1 s \<le> 1 \<Longrightarrow>
   0 \<le> b_x0 (bisect_step fwd inv' pt endpt0 az L s) \<and> b_x1 (bisect_step fwd inv' pt endpt0 az L s) \<le> 1"
  by (simp add: bisect_step_def Let_def)

subsection \<open>The state after \<open>k\<close> passes, from the initial state\<close>

lemma bisect_iterate:
  "b_i (((bisect_step fwd inv' pt endpt0 az L) ^^ k) (bisect_init tol)) = int k
   \<and> b_x1 (((bisect_step fwd inv' pt endpt0 az L) ^^ k) (bisect_init tol))
       - b_x0 (((bisect_step fwd inv' pt endpt0 az L) ^^ k) (bisect_init tol)) = 1 / 2 ^ k
   \<and> 0 \<le> b_x0 (((bisect_step fwd inv' pt endpt0 az L) ^^ k) (bisect_init tol))
   \<and> b_x1 (((bisect_step fwd inv' pt endpt0 az L) ^^ k) (bisect_init tol)) \<le> 1"
proof (induction k)
  case 0
  show ?case by (simp add: bisect_init_def)
next
  case (Suc k)
  let ?s = "((bisect_step fwd inv' pt endpt0 az L) ^^ k) (bisect_init tol)"
  from Suc have w: "b_x1 ?s - b_x0 ?s = 1 / 2 ^ k" and lo: "0 \<le> b_x0 ?s" and hi: "b_x1 ?s \<le> 1"
    and i: "b_i ?s = int k"
    by simp_all
  have "(0::real) < 1 / 2 ^ k" by simp
  with w have lt: "b_x0 ?s < b_x1 ?s" by linarith
  show ?case
    using bisect_step_bounds [OF lo lt hi, of fwd inv' pt endpt0 az L]
      bisect_step_width [of fwd inv' pt endpt0 az L ?s] w i
    by (simp add: bisect_step_i)
qed

lemma bisect_iterate_dx:
  "0 < k \<Longrightarrow> b_dx (((bisect_step fwd inv' pt endpt0 az L) ^^ k) (bisect_init tol)) = L / 2 ^ k"
proof -
  assume "0 < k"
  then obtain j where k: "k = Suc j" by (cases k) simp_all
  let ?s = "((bisect_step fwd inv' pt endpt0 az L) ^^ k) (bisect_init tol)"
  have "b_dx ?s = \<bar>b_x1 ?s - b_x0 ?s\<bar> * L"
    unfolding k by (simp add: bisect_step_dx)
  also have "b_x1 ?s - b_x0 ?s = 1 / 2 ^ k"
    using bisect_iterate [where fwd=fwd and inv'=inv' and pt=pt and ?endpt0.0=endpt0 and az=az and L=L and k=k and tol=tol] by simp
  finally show ?thesis by simp
qed

subsection \<open>Unrolling the loop\<close>

lemma bisect_loop_unroll:
  "(\<forall>j<k. b_dx (((bisect_step fwd inv' pt endpt0 az L) ^^ j) s) > tol
         \<and> b_i (((bisect_step fwd inv' pt endpt0 az L) ^^ j) s) \<noteq> maxiter) \<Longrightarrow>
   bisect_loop fwd inv' pt endpt0 az L tol maxiter s
     = bisect_loop fwd inv' pt endpt0 az L tol maxiter (((bisect_step fwd inv' pt endpt0 az L) ^^ k) s)"
proof (induction k)
  case 0
  show ?case by simp
next
  case (Suc k)
  let ?t = "((bisect_step fwd inv' pt endpt0 az L) ^^ k) s"
  from Suc.prems have "bisect_loop fwd inv' pt endpt0 az L tol maxiter s
     = bisect_loop fwd inv' pt endpt0 az L tol maxiter ?t"
    by (intro Suc.IH) simp
  also from Suc.prems have "b_dx ?t > tol" "b_i ?t \<noteq> maxiter" by simp_all
  then have "bisect_loop fwd inv' pt endpt0 az L tol maxiter ?t
     = bisect_loop fwd inv' pt endpt0 az L tol maxiter (bisect_step fwd inv' pt endpt0 az L ?t)"
    by (subst bisect_loop.simps) simp
  finally show ?case by simp
qed




lemma bisect_loop_Inl_counter:
  assumes "bisect_loop fwd inv' pt endpt0 az L tol maxiter s = Some y"
  shows "\<forall>e. y = Inl e \<longrightarrow> b_i s \<le> maxiter"
  using assms
proof (induct rule: bisect_loop.raw_induct [rotated 1, consumes 1])
  case (1 bisect_loop' fwd inv' pt endpt0 az L tol maxiter s y)
  show ?case
  proof (cases "tol < b_dx s \<and> b_i s \<noteq> maxiter")
    case False
    with 1(2) show ?thesis by (auto split: if_splits)
  next
    case True
    with 1(2) have "bisect_loop' fwd inv' pt endpt0 az L tol maxiter
        (bisect_step fwd inv' pt endpt0 az L s) = Some y" by simp
    from 1(1) [OF this] show ?thesis
      by (auto simp add: bisect_step_i)
  qed
qed


lemma bisect_loop_converges:
  assumes k: "1 \<le> k" and le: "L / 2 ^ k \<le> tol"
    and gt: "\<forall>j. 1 \<le> j \<and> j < k \<longrightarrow> tol < L / 2 ^ j"
    and m: "maxiter < 0 \<or> int k \<le> maxiter"
  shows "bisect_loop fwd inv' pt endpt0 az L tol maxiter (bisect_init tol)
           = Some (Inr (((bisect_step fwd inv' pt endpt0 az L) ^^ k) (bisect_init tol)))"
proof -
  let ?it = "\<lambda>j. ((bisect_step fwd inv' pt endpt0 az L) ^^ j) (bisect_init tol)"
  have "\<forall>j<k. b_dx (?it j) > tol \<and> b_i (?it j) \<noteq> maxiter"
  proof (intro allI impI)
    fix j assume j: "j < k"
    have i: "b_i (?it j) = int j"
      using bisect_iterate [where k = j] by blast
    have "tol < b_dx (?it j)"
    proof (cases "j = 0")
      case True
      then show ?thesis by (simp add: bisect_init_def)
    next
      case False
      then have "b_dx (?it j) = L / 2 ^ j" by (simp add: bisect_iterate_dx)
      with gt j False show ?thesis by simp
    qed
    moreover from m j i have "b_i (?it j) \<noteq> maxiter" by auto
    ultimately show "b_dx (?it j) > tol \<and> b_i (?it j) \<noteq> maxiter" by simp
  qed
  then have "bisect_loop fwd inv' pt endpt0 az L tol maxiter (bisect_init tol)
      = bisect_loop fwd inv' pt endpt0 az L tol maxiter (?it k)"
    by (rule bisect_loop_unroll)
  also from k have "b_dx (?it k) = L / 2 ^ k" by (simp add: bisect_iterate_dx)
  with le have "bisect_loop fwd inv' pt endpt0 az L tol maxiter (?it k) = Some (Inr (?it k))"
    by (subst bisect_loop.simps) simp
  finally show ?thesis .
qed

lemma bisect_loop_exhausts:
  assumes m: "0 \<le> maxiter"
    and gt: "\<forall>j. 1 \<le> j \<and> int j \<le> maxiter \<longrightarrow> tol < L / 2 ^ j"
  shows "bisect_loop fwd inv' pt endpt0 az L tol maxiter (bisect_init tol)
           = Some (Inl ConvergenceError)"
proof -
  let ?it = "\<lambda>j. ((bisect_step fwd inv' pt endpt0 az L) ^^ j) (bisect_init tol)"
  define k where "k = nat maxiter"
  have dx: "tol < b_dx (?it j)" if "int j \<le> maxiter" for j
  proof (cases "j = 0")
    case True
    then show ?thesis by (simp add: bisect_init_def)
  next
    case False
    then have "b_dx (?it j) = L / 2 ^ j" by (simp add: bisect_iterate_dx)
    with gt that False show ?thesis by simp
  qed
  have i: "b_i (?it j) = int j" for j
    using bisect_iterate [where k = j] by blast
  have "\<forall>j<k. b_dx (?it j) > tol \<and> b_i (?it j) \<noteq> maxiter"
    using dx i m by (auto simp: k_def)
  then have "bisect_loop fwd inv' pt endpt0 az L tol maxiter (bisect_init tol)
      = bisect_loop fwd inv' pt endpt0 az L tol maxiter (?it k)"
    by (rule bisect_loop_unroll)
  also have "tol < b_dx (?it k)" "b_i (?it k) = maxiter"
    using dx [of k] i [of k] m by (simp_all add: k_def)
  then have "bisect_loop fwd inv' pt endpt0 az L tol maxiter (?it k) = Some (Inl ConvergenceError)"
    by (subst bisect_loop.simps) simp
  finally show ?thesis .
qed

text \<open>
  The loop raises exactly when the width \<open>L / 2 ^ j\<close> stays above \<open>tol\<close> for every
  pass \<open>j\<close> up to \<open>maxiter\<close>.
\<close>

lemma bisect_loop_raises_iff:
  "bisect_loop fwd inv' pt endpt0 az L tol maxiter (bisect_init tol) = Some (Inl ConvergenceError)
     \<longleftrightarrow> 0 \<le> maxiter \<and> (\<forall>j. 1 \<le> j \<and> int j \<le> maxiter \<longrightarrow> tol < L / 2 ^ j)"
proof
  assume r: "bisect_loop fwd inv' pt endpt0 az L tol maxiter (bisect_init tol)
    = Some (Inl ConvergenceError)"
  from bisect_loop_Inl_counter [OF this] have m: "0 \<le> maxiter"
    by (simp add: bisect_init_def)
  have "tol < L / 2 ^ j" if "1 \<le> j" "int j \<le> maxiter" for j
  proof (rule ccontr)
    assume "\<not> tol < L / 2 ^ j"
    with that have ex: "1 \<le> j \<and> L / 2 ^ j \<le> tol" by simp
    define k where "k = (LEAST n. 1 \<le> n \<and> L / 2 ^ n \<le> tol)"
    from ex have k: "1 \<le> k \<and> L / 2 ^ k \<le> tol"
      unfolding k_def by (rule LeastI)
    from ex have kj: "k \<le> j" unfolding k_def by (rule Least_le)
    have "\<forall>n. 1 \<le> n \<and> n < k \<longrightarrow> tol < L / 2 ^ n"
    proof (intro allI impI)
      fix n assume n: "1 \<le> n \<and> n < k"
      then have "\<not> (1 \<le> n \<and> L / 2 ^ n \<le> tol)"
        unfolding k_def using not_less_Least by blast
      with n show "tol < L / 2 ^ n" by simp
    qed
    moreover from kj that have "maxiter < 0 \<or> int k \<le> maxiter" by simp
    ultimately have "bisect_loop fwd inv' pt endpt0 az L tol maxiter (bisect_init tol)
        = Some (Inr (((bisect_step fwd inv' pt endpt0 az L) ^^ k) (bisect_init tol)))"
      using k by (intro bisect_loop_converges) simp_all
    with r show False by simp
  qed
  with m show "0 \<le> maxiter \<and> (\<forall>j. 1 \<le> j \<and> int j \<le> maxiter \<longrightarrow> tol < L / 2 ^ j)"
    by blast
next
  assume "0 \<le> maxiter \<and> (\<forall>j. 1 \<le> j \<and> int j \<le> maxiter \<longrightarrow> tol < L / 2 ^ j)"
  then show "bisect_loop fwd inv' pt endpt0 az L tol maxiter (bisect_init tol)
    = Some (Inl ConvergenceError)"
    by (intro bisect_loop_exhausts) simp_all
qed

lemma bisect_loop_total:
  assumes "0 \<le> maxiter"
  shows "\<exists>y. bisect_loop fwd inv' pt endpt0 az L tol maxiter (bisect_init tol) = Some y"
proof (cases "\<forall>j. 1 \<le> j \<and> int j \<le> maxiter \<longrightarrow> tol < L / 2 ^ j")
  case True
  with assms show ?thesis using bisect_loop_exhausts by blast
next
  case False
  then obtain j where ex: "1 \<le> j \<and> int j \<le> maxiter \<and> L / 2 ^ j \<le> tol"
    by (auto simp: not_less)
  define k where "k = (LEAST n. 1 \<le> n \<and> int n \<le> maxiter \<and> L / 2 ^ n \<le> tol)"
  from ex have k: "1 \<le> k \<and> int k \<le> maxiter \<and> L / 2 ^ k \<le> tol"
    unfolding k_def by (rule LeastI)
  have "\<forall>n. 1 \<le> n \<and> n < k \<longrightarrow> tol < L / 2 ^ n"
  proof (intro allI impI)
    fix n assume n: "1 \<le> n \<and> n < k"
    then have "\<not> (1 \<le> n \<and> int n \<le> maxiter \<and> L / 2 ^ n \<le> tol)"
      unfolding k_def using not_less_Least by blast
    with n k show "tol < L / 2 ^ n" by simp
  qed
  with k show ?thesis using bisect_loop_converges [of k L tol maxiter] by blast
qed


section \<open>The checked search\<close>

lemma along_distance_gradient_checked_eq:
  "along_distance_gradient_checked propagate fwd inv' x0 y0 xp yp az f dx
     = (if dx = 0 \<and> propagate then Inl ZeroDivisionError
        else Inr (along_distance_gradient fwd inv' x0 y0 xp yp az f dx))"
  by (simp add: along_distance_gradient_checked_def along_distance_gradient_def Let_def)

lemma counter_meets_maxiter:
  fixes maxiter :: "32 word"
  assumes "k \<le> unat maxiter"
  shows "word_of_nat k = maxiter \<longleftrightarrow> k = unat maxiter"
proof
  assume "word_of_nat k = maxiter"
  then have "unat (word_of_nat k :: 32 word) = unat maxiter" by simp
  with le_unat_uoi [OF assms] show "k = unat maxiter" by simp
next
  assume "k = unat maxiter"
  then show "word_of_nat k = maxiter" by simp
qed

lemma bisect_update_counter: "c_i (bisect_update L s xm grad) = c_i s + 1"
  by (simp add: bisect_update_def)

lemma bisect_update_width:
  assumes "2 * xm = c_x0 s + c_x1 s"
  shows "c_x1 (bisect_update L s xm grad) - c_x0 (bisect_update L s xm grad)
           = (c_x1 s - c_x0 s) / 2"
    and "c_dx (bisect_update L s xm grad) = \<bar>(c_x1 s - c_x0 s) / 2\<bar> * L"
proof -
  from assms have xm: "xm = (c_x0 s + c_x1 s) / 2" by simp
  show "c_x1 (bisect_update L s xm grad) - c_x0 (bisect_update L s xm grad)
           = (c_x1 s - c_x0 s) / 2"
    unfolding xm by (simp add: bisect_update_def field_simps)
  show "c_dx (bisect_update L s xm grad) = \<bar>(c_x1 s - c_x0 s) / 2\<bar> * L"
    unfolding xm by (simp add: bisect_update_def absd_def abs_if field_simps)
qed

lemma bisect_loop_checked_raises:
  fixes maxiter :: "32 word"
  assumes ok: "L \<noteq> 0 \<or> \<not> propagate"
  shows "unat maxiter - k = n \<Longrightarrow> c_i s = word_of_nat k \<Longrightarrow> k \<le> unat maxiter \<Longrightarrow>
    fst (bisect_loop_checked propagate fwd inv' pt endpt0 az L tol maxiter s evals) = Inl e
      \<longleftrightarrow> e = ConvergenceError \<and> tol < c_dx s
          \<and> (\<forall>m. 1 \<le> m \<and> k + m \<le> unat maxiter
                \<longrightarrow> tol < \<bar>(c_x1 s - c_x0 s) / 2 ^ m\<bar> * L)"
proof (induction n arbitrary: k s evals)
  case 0
  then have k: "k = unat maxiter" by simp
  with 0 have i: "c_i s = maxiter" by simp
  show ?case
  proof (cases "tol < c_dx s")
    case True
    with i k show ?thesis by (subst bisect_loop_checked.simps) auto
  next
    case False
    then show ?thesis by (subst bisect_loop_checked.simps) simp
  qed
next
  case (Suc n)
  then have lt: "k < unat maxiter" by simp
  with Suc.prems counter_meets_maxiter [of k maxiter] have ne: "c_i s \<noteq> maxiter" by simp
  let ?xm = "0.5 * (c_x0 s + c_x1 s)"
  let ?g = "along_distance_gradient fwd inv' (fst endpt0) (snd endpt0) (fst pt) (snd pt) az
      (?xm * L) (1 / 10000000 * L)"
  let ?t = "bisect_update L s ?xm ?g"
  have grad: "along_distance_gradient_checked propagate fwd inv'
      (fst endpt0) (snd endpt0) (fst pt) (snd pt) az (?xm * L) (1 / 10000000 * L) = Inr ?g"
    using ok by (auto simp: along_distance_gradient_checked_eq)
  show ?case
  proof (cases "tol < c_dx s")
    case False
    then show ?thesis by (subst bisect_loop_checked.simps) simp
  next
    case True
    have step: "bisect_loop_checked propagate fwd inv' pt endpt0 az L tol maxiter s evals
        = bisect_loop_checked propagate fwd inv' pt endpt0 az L tol maxiter ?t
            (evals @ [?xm * L])"
      by (rule trans [OF bisect_loop_checked.simps])
        (simp only: True ne grad if_True if_False sum.case)
    have mid: "2 * ?xm = c_x0 s + c_x1 s" by simp
    have it: "c_i ?t = word_of_nat (Suc k)"
      unfolding bisect_update_counter using Suc.prems by simp
    have w: "c_x1 ?t - c_x0 ?t = (c_x1 s - c_x0 s) / 2"
      by (rule bisect_update_width [OF mid])
    have dx: "c_dx ?t = \<bar>(c_x1 s - c_x0 s) / 2\<bar> * L"
      by (rule bisect_update_width [OF mid])
    from Suc.prems lt have n: "unat maxiter - Suc k = n" "Suc k \<le> unat maxiter" by simp_all
    have "fst (bisect_loop_checked propagate fwd inv' pt endpt0 az L tol maxiter ?t
            (evals @ [?xm * L])) = Inl e
      \<longleftrightarrow> e = ConvergenceError \<and> tol < \<bar>(c_x1 s - c_x0 s) / 2\<bar> * L
          \<and> (\<forall>m. 1 \<le> m \<and> Suc k + m \<le> unat maxiter
                \<longrightarrow> tol < \<bar>(c_x1 s - c_x0 s) / 2 / 2 ^ m\<bar> * L)"
      using Suc.IH [OF n(1) it n(2), of "evals @ [?xm * L]"] unfolding w dx .
    also have "(tol < \<bar>(c_x1 s - c_x0 s) / 2\<bar> * L
          \<and> (\<forall>m. 1 \<le> m \<and> Suc k + m \<le> unat maxiter
                \<longrightarrow> tol < \<bar>(c_x1 s - c_x0 s) / 2 / 2 ^ m\<bar> * L))
      \<longleftrightarrow> (\<forall>m. 1 \<le> m \<and> k + m \<le> unat maxiter
                \<longrightarrow> tol < \<bar>(c_x1 s - c_x0 s) / 2 ^ m\<bar> * L)"
      (is "?A \<and> ?B \<longleftrightarrow> ?C")
    proof
      assume ab: "?A \<and> ?B"
      show ?C
      proof (intro allI impI)
        fix m assume m: "1 \<le> m \<and> k + m \<le> unat maxiter"
        show "tol < \<bar>(c_x1 s - c_x0 s) / 2 ^ m\<bar> * L"
        proof (cases "m = 1")
          case True
          with ab show ?thesis by simp
        next
          case False
          with m obtain m' where m': "m = Suc m'" "1 \<le> m'" by (cases m) auto
          with m ab have "tol < \<bar>(c_x1 s - c_x0 s) / 2 / 2 ^ m'\<bar> * L" by simp
          with m' show ?thesis by simp
        qed
      qed
    next
      assume c: ?C
      from lt c have "tol < \<bar>(c_x1 s - c_x0 s) / 2 ^ 1\<bar> * L" by (intro c [rule_format]) simp
      then have a: ?A by simp
      have ?B
      proof (intro allI impI)
        fix m assume m: "1 \<le> m \<and> Suc k + m \<le> unat maxiter"
        then have "tol < \<bar>(c_x1 s - c_x0 s) / 2 ^ Suc m\<bar> * L"
          by (intro c [rule_format]) simp
        then show "tol < \<bar>(c_x1 s - c_x0 s) / 2 / 2 ^ m\<bar> * L" by simp
      qed
      with a show "?A \<and> ?B" ..
    qed
    finally show ?thesis using True step by simp
  qed
qed


lemma bisect_loop_checked_init_raises:
  fixes maxiter :: "32 word"
  assumes ok: "L \<noteq> 0 \<or> \<not> propagate"
  shows "fst (bisect_loop_checked propagate fwd inv' pt endpt0 az L tol maxiter
                (checked_init tol) evals) = Inl e
      \<longleftrightarrow> e = ConvergenceError
          \<and> (\<forall>j. 1 \<le> j \<and> j \<le> unat maxiter \<longrightarrow> tol < \<bar>1 / 2 ^ j\<bar> * L)"
proof -
  have i: "c_i (checked_init tol) = word_of_nat 0" and k: "0 \<le> unat maxiter"
    by (simp_all add: checked_init_def)
  from bisect_loop_checked_raises [OF ok refl i k, of fwd inv' pt endpt0 az tol evals e]
  show ?thesis by (simp add: checked_init_def)
qed

lemma pt_nearest_proj_checked_zero_length:
  assumes inv: "inv' (fst endpt0) (snd endpt0) (fst endpt1) (snd endpt1) = (az, az2, L)"
    and "propagate" and "L = 0"
  shows "pt_nearest_proj_checked propagate fwd inv' pt endpt0 endpt1 tol maxiter
           = (Inl ZeroDivisionError, [0])"
  using assms by (simp add: pt_nearest_proj_checked_def along_distance_gradient_checked_eq)

lemma pt_nearest_proj_checked_raises:
  assumes inv: "inv' (fst endpt0) (snd endpt0) (fst endpt1) (snd endpt1) = (az, az2, L)"
    and ok: "L \<noteq> 0 \<or> \<not> propagate"
  shows "fst (pt_nearest_proj_checked propagate fwd inv' pt endpt0 endpt1 tol maxiter) = Inl e
      \<longleftrightarrow> \<not> grad_at fwd inv' pt endpt0 az L 0 > 0 \<and> \<not> grad_at fwd inv' pt endpt0 az L L < 0
          \<and> fst (bisect_loop_checked propagate fwd inv' pt endpt0 az L tol maxiter
                   (checked_init tol) [0, L]) = Inl e"
proof -
  have g: "along_distance_gradient_checked propagate fwd inv'
      (fst endpt0) (snd endpt0) (fst pt) (snd pt) az f (1 / 10000000 * L)
      = Inr (grad_at fwd inv' pt endpt0 az L f)" for f
    using ok by (auto simp: along_distance_gradient_checked_eq)
  obtain r evals where loop: "bisect_loop_checked propagate fwd inv' pt endpt0 az L tol maxiter
      (checked_init tol) [0, L] = (r, evals)"
    by (cases "bisect_loop_checked propagate fwd inv' pt endpt0 az L tol maxiter
      (checked_init tol) [0, L]")
  show ?thesis
  proof (cases r)
    case (Inl e')
    show ?thesis
      unfolding pt_nearest_proj_checked_def inv prod.case g sum.case loop Inl by simp
  next
    case (Inr s)
    obtain xn yn z where f: "fwd (fst endpt0) (snd endpt0) az (c_xm s * L) = (xn, yn, z)"
      by (cases "fwd (fst endpt0) (snd endpt0) az (c_xm s * L)")
    show ?thesis
      unfolding pt_nearest_proj_checked_def inv prod.case g sum.case loop Inr f by simp
  qed
qed

lemma pt_nearest_proj_checked_agrees:
  assumes inv: "inv' (fst endpt0) (snd endpt0) (fst endpt1) (snd endpt1) = (az, az2, L)"
    and ok: "L \<noteq> 0 \<or> \<not> propagate"
    and m: "0 \<le> m" "m < 2 ^ 31"
  shows "fst (pt_nearest_proj_checked propagate fwd inv' pt endpt0 endpt1 tol (word_of_int m))
           = Inl ConvergenceError
         \<longleftrightarrow> pt_nearest_proj fwd inv' pt endpt0 endpt1 tol m = Some (Inl ConvergenceError)"
proof -
  have u: "unat (word_of_int m :: 32 word) = nat m"
  proof -
    from m have "word_of_int m = (word_of_nat (nat m) :: 32 word)" by simp
    moreover from m have "nat m < 2 ^ LENGTH(32)" by simp
    ultimately show ?thesis by (simp add: of_nat_inverse)
  qed
  have old: "pt_nearest_proj fwd inv' pt endpt0 endpt1 tol m = Some (Inl ConvergenceError)
      \<longleftrightarrow> \<not> grad_at fwd inv' pt endpt0 az L 0 > 0 \<and> \<not> grad_at fwd inv' pt endpt0 az L L < 0
          \<and> bisect_loop fwd inv' pt endpt0 az L tol m (bisect_init tol)
              = Some (Inl ConvergenceError)"
    using inv
    by (auto simp: pt_nearest_proj_def Let_def split: option.splits sum.splits prod.splits)
  have q: "(\<forall>j. 1 \<le> j \<and> int j \<le> m \<longrightarrow> tol < L / 2 ^ j)
      \<longleftrightarrow> (\<forall>j. 1 \<le> j \<and> j \<le> nat m \<longrightarrow> tol < \<bar>1 / 2 ^ j\<bar> * L)"
    using m by (simp add: le_nat_iff)
  note r = pt_nearest_proj_checked_raises [where inv' = inv' and fwd = fwd
      and pt = pt and ?endpt0.0 = endpt0 and ?endpt1.0 = endpt1 and tol = tol
      and maxiter = "word_of_int m", OF inv ok]
  from m show ?thesis
    unfolding r bisect_loop_checked_init_raises [OF ok] old bisect_loop_raises_iff u q
    by blast
qed


lemma pt_nearest_proj_checked_example: "pt_nearest_proj_checked False line_fwd line_inv (1, 1) (0, 0) (4, 0) 1 100
  = (Inr ((1, 0), 1), [0, 4, 2, 1])"
  by (simp add: pt_nearest_proj_checked_def bisect_loop_checked.simps checked_init_def
      bisect_update_def along_distance_gradient_checked_def line_fwd_def line_inv_def
      along_distance_def absd_def Let_def)

section \<open>The geodesic search\<close>

lemmas line_defs = line_fwd_def line_inv_def along_distance_def along_distance_gradient_def
  bisect_step_def bisect_init_def absd_def Let_def





text \<open>
  Claim C3, as the code has it. With \<open>(az, az2, L)\<close> the result of \<open>inv\<close> on the end
  points, \<open>pt_nearest_proj\<close> raises \<open>ConvergenceError\<close> if and only if the division
  of the gradient does not fail (\<open>L \<noteq> 0\<close>, or a build that does not propagate the
  error), no end point short-circuit applies, and the width of the bracket after each
  of the passes \<open>1, \<dots>, maxiter\<close>, which is \<open>\<bar>1 / 2 ^ j\<bar> * L\<close>, is above \<open>tol\<close>. With
  \<open>maxiter = 0\<close> and no short-circuit it raises at once: the gradient has been
  evaluated at \<open>0\<close> and at \<open>L\<close> only, at no midpoint. \<open>ZeroDivisionError\<close> is raised
  exactly when \<open>L = 0\<close> and the build propagates it, so for \<open>L \<noteq> 0\<close> the only error
  is \<open>ConvergenceError\<close>.
\<close>

theorem pt_nearest_proj_checked_errors:
  fixes maxiter :: "32 word"
  assumes inv: "inv' (fst endpt0) (snd endpt0) (fst endpt1) (snd endpt1) = (az, az2, L)"
  shows "(fst (pt_nearest_proj_checked propagate fwd inv' pt endpt0 endpt1 tol maxiter)
            = Inl ConvergenceError
          \<longleftrightarrow> (L \<noteq> 0 \<or> \<not> propagate)
              \<and> \<not> grad_at fwd inv' pt endpt0 az L 0 > 0
              \<and> \<not> grad_at fwd inv' pt endpt0 az L L < 0
              \<and> (\<forall>j. 1 \<le> j \<and> j \<le> unat maxiter \<longrightarrow> tol < \<bar>1 / 2 ^ j\<bar> * L))
       \<and> ((L \<noteq> 0 \<or> \<not> propagate)
            \<and> \<not> grad_at fwd inv' pt endpt0 az L 0 > 0
            \<and> \<not> grad_at fwd inv' pt endpt0 az L L < 0
            \<longrightarrow> pt_nearest_proj_checked propagate fwd inv' pt endpt0 endpt1 tol 0
                  = (Inl ConvergenceError, [0, L]))
       \<and> (fst (pt_nearest_proj_checked propagate fwd inv' pt endpt0 endpt1 tol maxiter)
            = Inl ZeroDivisionError
          \<longleftrightarrow> propagate \<and> L = 0)
       \<and> (\<forall>e. fst (pt_nearest_proj_checked propagate fwd inv' pt endpt0 endpt1 tol maxiter)
                = Inl e
              \<longrightarrow> e = ConvergenceError \<or> e = ZeroDivisionError \<and> propagate \<and> L = 0)"
proof (cases "L \<noteq> 0 \<or> \<not> propagate")
  case ok: True
  note r = pt_nearest_proj_checked_raises [where inv' = inv' and ?endpt0.0 = endpt0
      and ?endpt1.0 = endpt1 and fwd = fwd and pt = pt and tol = tol and maxiter = maxiter,
      OF inv ok]
  note l = bisect_loop_checked_init_raises [OF ok]
  have ce: "fst (pt_nearest_proj_checked propagate fwd inv' pt endpt0 endpt1 tol maxiter)
            = Inl ConvergenceError
          \<longleftrightarrow> (L \<noteq> 0 \<or> \<not> propagate)
              \<and> \<not> grad_at fwd inv' pt endpt0 az L 0 > 0
              \<and> \<not> grad_at fwd inv' pt endpt0 az L L < 0
              \<and> (\<forall>j. 1 \<le> j \<and> j \<le> unat maxiter \<longrightarrow> tol < \<bar>1 / 2 ^ j\<bar> * L)"
    unfolding r l using ok by blast
  have zd: "fst (pt_nearest_proj_checked propagate fwd inv' pt endpt0 endpt1 tol maxiter)
      \<noteq> Inl ZeroDivisionError"
    unfolding r l by simp
  have only: "e = ConvergenceError"
    if "fst (pt_nearest_proj_checked propagate fwd inv' pt endpt0 endpt1 tol maxiter) = Inl e"
    for e
    using that unfolding r l by simp
  have zero: "pt_nearest_proj_checked propagate fwd inv' pt endpt0 endpt1 tol 0
                  = (Inl ConvergenceError, [0, L])"
    if "\<not> grad_at fwd inv' pt endpt0 az L 0 > 0" "\<not> grad_at fwd inv' pt endpt0 az L L < 0"
  proof -
    have g: "along_distance_gradient_checked propagate fwd inv'
        (fst endpt0) (snd endpt0) (fst pt) (snd pt) az f (1 / 10000000 * L)
        = Inr (grad_at fwd inv' pt endpt0 az L f)" for f
      using ok by (auto simp: along_distance_gradient_checked_eq)
    have "bisect_loop_checked propagate fwd inv' pt endpt0 az L tol 0 (checked_init tol) [0, L]
        = (Inl ConvergenceError, [0, L])"
      by (rule trans [OF bisect_loop_checked.simps]) (simp add: checked_init_def)
    with that show ?thesis
      unfolding pt_nearest_proj_checked_def inv prod.case g sum.case by simp
  qed
  from ce zd only zero ok show ?thesis by blast
next
  case False
  then have z: "propagate" "L = 0" by simp_all
  have "pt_nearest_proj_checked propagate fwd inv' pt endpt0 endpt1 tol m
      = (Inl ZeroDivisionError, [0])" for m
    using inv z by (rule pt_nearest_proj_checked_zero_length)
  with z show ?thesis by simp
qed


theorem pt_nearest_proj_checked_errors_witness:
  "fst (pt_nearest_proj_checked True line_fwd line_inv (1, 1) (0, 0) (4, 0) (1 / 10) 2)
     = Inl ConvergenceError
   \<and> pt_nearest_proj_checked True line_fwd line_inv (1, 1) (0, 0) (4, 0) (1 / 10) 0
     = (Inl ConvergenceError, [0, 4])"
proof -
  have inv: "line_inv (fst (0, 0)) (snd (0, 0)) (fst (4, 0)) (snd (4, 0)) = (0, 0, 4)"
    by (simp add: line_inv_def)
  have ok: "(4 :: real) \<noteq> 0 \<or> \<not> True" by simp
  have g0: "\<not> grad_at line_fwd line_inv (1, 1) (0, 0) 0 4 0 > 0"
    by (simp add: line_defs)
  have g1: "\<not> grad_at line_fwd line_inv (1, 1) (0, 0) 0 4 4 < 0"
    by (simp add: line_defs)
  have w: "\<forall>j. 1 \<le> j \<and> j \<le> unat (2 :: 32 word) \<longrightarrow> (1 / 10 :: real) < \<bar>1 / 2 ^ j\<bar> * 4"
  proof (intro allI impI)
    fix j :: nat assume "1 \<le> j \<and> j \<le> unat (2 :: 32 word)"
    then have "j = 1 \<or> j = 2" by auto
    then show "(1 / 10 :: real) < \<bar>1 / 2 ^ j\<bar> * 4" by auto
  qed
  note t = pt_nearest_proj_checked_errors [where inv' = line_inv and fwd = line_fwd
      and pt = "(1, 1)" and ?endpt0.0 = "(0, 0)" and ?endpt1.0 = "(4, 0)" and tol = "1 / 10"
      and propagate = True and maxiter = 2, OF inv]
  from t ok g0 g1 w
  have "fst (pt_nearest_proj_checked True line_fwd line_inv (1, 1) (0, 0) (4, 0) (1 / 10) 2)
     = Inl ConvergenceError" by blast
  moreover from t ok g0 g1
  have "pt_nearest_proj_checked True line_fwd line_inv (1, 1) (0, 0) (4, 0) (1 / 10) 0
     = (Inl ConvergenceError, [0, 4])" by blast
  ultimately show ?thesis by simp
qed

text \<open>
  For equal end points \<open>line_inv\<close> gives \<open>L = 0\<close>: the first gradient divides by the
  step \<open>0\<close>, and where the error propagates the search raises \<open>ZeroDivisionError\<close>,
  also with \<open>maxiter = 0\<close>.
\<close>

theorem pt_nearest_proj_checked_zero_division_counterexample:
  "pt_nearest_proj_checked True line_fwd line_inv (1, 1) (0, 0) (0, 0) (1 / 10) 0
     = (Inl ZeroDivisionError, [0])
   \<and> fst (pt_nearest_proj_checked True line_fwd line_inv (1, 1) (0, 0) (0, 0) (1 / 10) 0)
       \<noteq> Inl ConvergenceError"
  by (simp add: pt_nearest_proj_checked_def along_distance_gradient_checked_def line_inv_def)

text \<open>
  Claim C4. When the gradient at \<open>f = 0\<close> is positive, \<open>pt_nearest_proj\<close> returns
  \<open>endpt0\<close> and the distance at \<open>f = 0\<close>; otherwise, when the gradient at \<open>f = L\<close>
  is negative, it returns \<open>endpt1\<close> and the distance at \<open>f = L\<close>. The result is a
  normal return for every \<open>tol\<close> and every \<open>maxiter\<close>: the loop is not run.
\<close>

theorem pt_nearest_proj_endpoint_short_circuit:
  assumes inv: "inv' (fst endpt0) (snd endpt0) (fst endpt1) (snd endpt1) = (az, az2, L)"
    and g: "grad_at fwd inv' pt endpt0 az L 0 > 0 \<or> grad_at fwd inv' pt endpt0 az L L < 0"
  shows "pt_nearest_proj fwd inv' pt endpt0 endpt1 tol maxiter =
           Some (Inr (if grad_at fwd inv' pt endpt0 az L 0 > 0
                      then (endpt0, dist_at fwd inv' pt endpt0 az 0)
                      else (endpt1, dist_at fwd inv' pt endpt0 az L)))"
  using inv g by (auto simp: pt_nearest_proj_def Let_def)

theorem pt_nearest_proj_endpoint_short_circuit_witness:
  "pt_nearest_proj line_fwd line_inv (- 1, 1) (0, 0) (4, 0) 1 0 = Some (Inr ((0, 0), 2))
   \<and> pt_nearest_proj line_fwd line_inv (5, 1) (0, 0) (4, 0) 1 0 = Some (Inr ((4, 0), 2))"
proof -
  have inv: "line_inv (fst (0, 0)) (snd (0, 0)) (fst (4, 0)) (snd (4, 0)) = (0, 0, 4)"
    by (simp add: line_inv_def)
  have a: "grad_at line_fwd line_inv (- 1, 1) (0, 0) 0 4 0 > 0"
    by (simp add: line_defs)
  have b: "\<not> grad_at line_fwd line_inv (5, 1) (0, 0) 0 4 0 > 0"
    "grad_at line_fwd line_inv (5, 1) (0, 0) 0 4 4 < 0"
    by (simp_all add: line_defs)
  from a have ga: "grad_at line_fwd line_inv (- 1, 1) (0, 0) 0 4 0 > 0
      \<or> grad_at line_fwd line_inv (- 1, 1) (0, 0) 0 4 4 < 0" by (rule disjI1)
  from b have gb: "grad_at line_fwd line_inv (5, 1) (0, 0) 0 4 0 > 0
      \<or> grad_at line_fwd line_inv (5, 1) (0, 0) 0 4 4 < 0" by (intro disjI2)
  have "pt_nearest_proj line_fwd line_inv (- 1, 1) (0, 0) (4, 0) 1 0 = Some (Inr ((0, 0), 2))"
    using pt_nearest_proj_endpoint_short_circuit [where inv' = line_inv and fwd = line_fwd
        and pt = "(- 1, 1)" and ?endpt0.0 = "(0, 0)" and ?endpt1.0 = "(4, 0)" and tol = 1
        and maxiter = 0, OF inv ga] a
    by (simp add: line_defs)
  moreover
  have "pt_nearest_proj line_fwd line_inv (5, 1) (0, 0) (4, 0) 1 0 = Some (Inr ((4, 0), 2))"
    using pt_nearest_proj_endpoint_short_circuit [where inv' = line_inv and fwd = line_fwd
        and pt = "(5, 1)" and ?endpt0.0 = "(0, 0)" and ?endpt1.0 = "(4, 0)" and tol = 1
        and maxiter = 0, OF inv gb] b
    by (simp add: line_defs)
  ultimately show ?thesis by simp
qed



subsection \<open>The number of passes\<close>







end
